theory Spec2Isabelle
  imports Main "HOL-Library.Word"
begin

section \<open>HMAC\_RNG: a shallow embedding of src/rng/hmac\_rng/hmac\_rng.cpp\<close>

text \<open>
  The generator of \<^verbatim>\<open>hmac_rng.cpp\<close> is modelled by explicit state passing: every member
  function takes the generator state and returns the new one. The two MAC objects, the
  entropy sources and the helpers of \<^verbatim>\<open>loadstor.h\<close> and \<^verbatim>\<open>secmem.h\<close> are
  declared in headers that are not part of the source file; they are modelled from the
  interface contracts of the specification and marked as such.
\<close>

subsection \<open>Machine types\<close>

type_synonym byte = "8 word"
type_synonym u32bit = "32 word"

text \<open>The bytes of a \<^verbatim>\<open>std::string\<close>.\<close>

definition bytes_of :: "string \<Rightarrow> byte list" where
  "bytes_of s = map (\<lambda>c. of_nat (of_char c)) s"

text \<open>
  Modelled from the spec: \<^verbatim>\<open>get_byte\<close> (botan/loadstor.h) is missing from the sources.
  The specification has the four counter bytes fed ``least-significant byte first'', so
  byte number \<open>i\<close> is counted from the least significant end.
\<close>

definition get_byte :: "u32bit \<Rightarrow> u32bit \<Rightarrow> byte" where
  "get_byte i x = ucast (drop_bit (8 * unat i) x)"

text \<open>
  Modelled from the spec: \<^verbatim>\<open>MemoryRegion<byte>\<close> (botan/secmem.h) is missing from the
  sources. \<^verbatim>\<open>create(n)\<close> gives \<open>n\<close> zero bytes, \<^verbatim>\<open>clear()\<close> ``clears to zero'' and
  keeps the size (the length of \<open>K\<close> is the PRF output length at all times),
  \<^verbatim>\<open>size()\<close> is a \<^verbatim>\<open>u32bit\<close>.
\<close>

definition region_create :: "u32bit \<Rightarrow> byte list" where
  "region_create n = replicate (unat n) 0"

definition region_clear :: "byte list \<Rightarrow> byte list" where
  "region_clear buf = replicate (length buf) 0"

definition region_size :: "byte list \<Rightarrow> u32bit" where
  "region_size buf = of_nat (length buf)"

text \<open>Writing \<open>bs\<close> at the start of a buffer, as a poll does with the scratch buffer.\<close>

definition write_buf :: "byte list \<Rightarrow> byte list \<Rightarrow> byte list" where
  "write_buf bs buf = bs @ drop (length bs) buf"

subsection \<open>The keyed MAC primitive\<close>

text \<open>
  Modelled from the spec: \<^verbatim>\<open>MessageAuthenticationCode\<close> is missing from the sources.
  Its contract: \<^verbatim>\<open>set_key(bytes)\<close>, \<^verbatim>\<open>update(bytes)\<close> (incremental),
  \<^verbatim>\<open>final()\<close> (consumes the accumulated input, resets the accumulation, returns the tag),
  \<^verbatim>\<open>OUTPUT_LENGTH\<close>, \<^verbatim>\<open>clear()\<close> (wipes key and internal state) and \<^verbatim>\<open>name()\<close>.
  The keyed function itself is a parameter, \<open>mac_fn key message\<close>. What \<^verbatim>\<open>set_key\<close> does
  to input that is pending is not part of the contract; here it is kept. The generator
  calls \<^verbatim>\<open>set_key\<close> only on an object whose input has just been consumed by \<^verbatim>\<open>final\<close>.
\<close>

record MessageAuthenticationCode =
  OUTPUT_LENGTH :: u32bit
  mac_name :: string
  mac_fn :: "byte list \<Rightarrow> byte list \<Rightarrow> byte list"
  mac_key :: "byte list"
  mac_data :: "byte list"

definition mac_set_key :: "MessageAuthenticationCode \<Rightarrow> byte list \<Rightarrow> MessageAuthenticationCode" where
  "mac_set_key m k = m\<lparr>mac_key := k\<rparr>"

definition mac_update :: "MessageAuthenticationCode \<Rightarrow> byte list \<Rightarrow> MessageAuthenticationCode" where
  "mac_update m bs = m\<lparr>mac_data := mac_data m @ bs\<rparr>"

definition mac_final :: "MessageAuthenticationCode \<Rightarrow> byte list \<times> MessageAuthenticationCode" where
  "mac_final m = (mac_fn m (mac_key m) (mac_data m), m\<lparr>mac_data := []\<rparr>)"

definition mac_clear :: "MessageAuthenticationCode \<Rightarrow> MessageAuthenticationCode" where
  "mac_clear m = m\<lparr>mac_key := [], mac_data := []\<rparr>"

text \<open>
  The part of the contract that the code relies on: \<^verbatim>\<open>final()\<close> returns exactly
  \<^verbatim>\<open>OUTPUT_LENGTH\<close> bytes, and that length is not zero.
\<close>

definition mac_ok :: "MessageAuthenticationCode \<Rightarrow> bool" where
  "mac_ok m \<longleftrightarrow> 0 < OUTPUT_LENGTH m \<and> (\<forall>k d. length (mac_fn m k d) = unat (OUTPUT_LENGTH m))"

subsection \<open>Entropy sources\<close>

text \<open>
  Modelled from the spec: \<^verbatim>\<open>EntropySource\<close> is missing from the sources. A source is
  polled into a buffer of a given size and reports the bytes written, possibly none.
  A source is represented by what its future fast polls and slow polls will deliver.
\<close>

datatype EntropySource = EntropySource (fast_results: "byte list list") (slow_results: "byte list list")

fun fast_poll :: "EntropySource \<Rightarrow> nat \<Rightarrow> byte list \<times> EntropySource" where
  "fast_poll (EntropySource [] sl) n = ([], EntropySource [] sl)"
| "fast_poll (EntropySource (r # rs) sl) n = (take n r, EntropySource rs sl)"

fun slow_poll :: "EntropySource \<Rightarrow> nat \<Rightarrow> byte list \<times> EntropySource" where
  "slow_poll (EntropySource fa []) n = ([], EntropySource fa [])"
| "slow_poll (EntropySource fa (r # rs)) n = (take n r, EntropySource fa rs)"

subsection \<open>The generator state\<close>

text \<open>
  \<open>history\<close> is an auxiliary variable: the calls of \<^verbatim>\<open>reseed_with_input\<close>, of the stepping
  function and of the polls, in the order in which they were made. No operation reads it.
\<close>

datatype call = Reseed | Step string | Fast_Poll nat | Slow_Poll nat

datatype error = PRNG_Unseeded string | Out_Of_Range

text \<open>The member \<^verbatim>\<open>prf\<close> is \<open>prf_mac\<close> here (\<open>prf\<close> is a reserved word).\<close>

record hmac_rng =
  extractor :: MessageAuthenticationCode
  prf_mac :: MessageAuthenticationCode
  entropy_sources :: "EntropySource list"
  io_buffer :: "byte list"
  K :: "byte list"
  entropy :: u32bit
  counter :: u32bit
  source_index :: nat
  history :: "call list"

subsection \<open>hmac\_prf (lines 19-31)\<close>

text \<open>
  \<^verbatim>\<open>prf->final(K)\<close> writes the tag over \<open>K\<close>, whose size is the output length of the PRF;
  the new \<open>K\<close> is the tag.
\<close>

definition hmac_prf ::
  "MessageAuthenticationCode \<Rightarrow> byte list \<Rightarrow> u32bit \<Rightarrow> string
     \<Rightarrow> MessageAuthenticationCode \<times> byte list \<times> u32bit" where
  "hmac_prf p k c label =
     (let p1 = mac_update p k;
          p2 = mac_update p1 (bytes_of label);
          p3 = fold (\<lambda>i m. mac_update m [get_byte i c]) [0, 1, 2, 3] p2;
          (tag, p4) = mac_final p3
      in (p4, tag, c + 1))"

text \<open>The call \<^verbatim>\<open>hmac_prf(prf, K, counter, label)\<close> on the members of the generator.\<close>

definition call_hmac_prf :: "hmac_rng \<Rightarrow> string \<Rightarrow> hmac_rng" where
  "call_hmac_prf g label =
     (case hmac_prf (prf_mac g) (K g) (counter g) label of
        (p, k, c) \<Rightarrow> g\<lparr>prf_mac := p, K := k, counter := c, history := history g @ [Step label]\<rparr>)"

subsection \<open>is\_seeded (lines 207-210) and name (lines 228-231)\<close>

definition is_seeded :: "hmac_rng \<Rightarrow> bool" where
  "is_seeded g \<longleftrightarrow> entropy g \<ge> 8 * OUTPUT_LENGTH (prf_mac g)"

definition name :: "hmac_rng \<Rightarrow> string" where
  "name g = ''HMAC_RNG('' @ mac_name (extractor g) @ '','' @ mac_name (prf_mac g) @ '')''"

subsection \<open>reseed\_with\_input (lines 82-177)\<close>

text \<open>
  The body of the two poll loops (lines 118-125 and 127-134), which differ in the poll
  that is called: the source writes into the scratch buffer, the number of bytes is added
  to the estimate and the bytes are fed to the extractor.
\<close>

definition poll_credit ::
  "(EntropySource \<Rightarrow> nat \<Rightarrow> byte list \<times> EntropySource) \<Rightarrow> (nat \<Rightarrow> call)
     \<Rightarrow> nat \<Rightarrow> hmac_rng \<Rightarrow> hmac_rng" where
  "poll_credit poll ev j g =
     (case poll (entropy_sources g ! j) (length (io_buffer g)) of
        (bs, src) \<Rightarrow>
          g\<lparr>entropy_sources := (entropy_sources g)[j := src],
            io_buffer := write_buf bs (io_buffer g),
            entropy := entropy g + of_nat (length bs),
            extractor := mac_update (extractor g) (take (length bs) (write_buf bs (io_buffer g))),
            history := history g @ [ev j]\<rparr>)"

definition fast_poll_credit :: "nat \<Rightarrow> hmac_rng \<Rightarrow> hmac_rng" where
  "fast_poll_credit = poll_credit fast_poll Fast_Poll"

definition slow_poll_credit :: "nat \<Rightarrow> hmac_rng \<Rightarrow> hmac_rng" where
  "slow_poll_credit = poll_credit slow_poll Slow_Poll"

text \<open>Lines 84-135: the sweep over the registry, fast polls first, then slow polls.\<close>

definition poll_sources :: "hmac_rng \<Rightarrow> hmac_rng" where
  "poll_sources g =
     (if length (entropy_sources g) \<noteq> 0 then
        fold slow_poll_credit [0..<length (entropy_sources g)]
          (fold fast_poll_credit [0..<length (entropy_sources g)] g)
      else g)"

text \<open>Lines 140-144: the user-provided input, if any.\<close>

definition add_user_input :: "hmac_rng \<Rightarrow> byte list \<Rightarrow> u32bit \<Rightarrow> hmac_rng" where
  "add_user_input g input input_length =
     (if input_length \<noteq> 0 then
        g\<lparr>extractor := mac_update (extractor g) (take (unat input_length) input),
          entropy := entropy g + input_length\<rparr>
      else g)"

text \<open>Lines 157-158 and 160-161: one PRF step whose output is fed to the extractor.\<close>

definition feed_forward :: "hmac_rng \<Rightarrow> string \<Rightarrow> hmac_rng" where
  "feed_forward g label =
     (let g1 = call_hmac_prf g label
      in g1\<lparr>extractor := mac_update (extractor g1) (K g1)\<rparr>)"

text \<open>Line 165: the new PRK becomes the key of the PRF.\<close>

definition derive_prk :: "hmac_rng \<Rightarrow> hmac_rng" where
  "derive_prk g =
     (case mac_final (extractor g) of
        (prk, ext) \<Rightarrow> g\<lparr>extractor := ext, prf_mac := mac_set_key (prf_mac g) prk\<rparr>)"

text \<open>Lines 168-169: a new PRF output is the next extractor salt.\<close>

definition derive_xts :: "hmac_rng \<Rightarrow> hmac_rng" where
  "derive_xts g =
     (let g1 = call_hmac_prf g ''xts''
      in g1\<lparr>extractor := mac_set_key (extractor g1) (K g1)\<rparr>)"

text \<open>Lines 172-176: the reset of \<open>K\<close> and the counter, and the bound on the estimate.\<close>

definition reset_state :: "hmac_rng \<Rightarrow> hmac_rng" where
  "reset_state g =
     g\<lparr>K := region_clear (K g), counter := 0,
       entropy := min (entropy g) (8 * OUTPUT_LENGTH (extractor g))\<rparr>"

definition reseed_with_input :: "hmac_rng \<Rightarrow> byte list \<Rightarrow> u32bit \<Rightarrow> hmac_rng" where
  "reseed_with_input g input input_length =
     reset_state (derive_xts (derive_prk
       (feed_forward
         (feed_forward
           (add_user_input (poll_sources (g\<lparr>history := history g @ [Reseed]\<rparr>)) input input_length)
           ''rng'')
         ''reseed'')))"

subsection \<open>reseed, add\_entropy, add\_entropy\_source, clear and the constructor\<close>

text \<open>Lines 182-185: \<^verbatim>\<open>reseed_with_input(0, 0)\<close>, a null pointer with length zero.\<close>

definition reseed :: "hmac_rng \<Rightarrow> hmac_rng" where
  "reseed g = reseed_with_input g [] 0"

definition add_entropy :: "hmac_rng \<Rightarrow> byte list \<Rightarrow> u32bit \<Rightarrow> hmac_rng" where
  "add_entropy g input len = reseed_with_input g input len"

definition add_entropy_source :: "hmac_rng \<Rightarrow> EntropySource \<Rightarrow> hmac_rng" where
  "add_entropy_source g src = g\<lparr>entropy_sources := entropy_sources g @ [src]\<rparr>"

definition clear :: "hmac_rng \<Rightarrow> hmac_rng" where
  "clear g =
     g\<lparr>extractor := mac_clear (extractor g), prf_mac := mac_clear (prf_mac g),
       K := region_clear (K g), entropy := 0, counter := 0, source_index := 0\<rparr>"

definition HMAC_RNG :: "MessageAuthenticationCode \<Rightarrow> MessageAuthenticationCode \<Rightarrow> hmac_rng" where
  "HMAC_RNG extractor_mac prf_m =
     \<lparr>extractor = mac_set_key extractor_mac (bytes_of ''Botan HMAC_RNG XTS''),
      prf_mac = mac_set_key prf_m (bytes_of ''Botan HMAC_RNG PRF''),
      entropy_sources = [],
      io_buffer = region_create 128,
      K = region_create (OUTPUT_LENGTH prf_m),
      entropy = 0,
      counter = 0,
      source_index = 0,
      history = []\<rparr>"

subsection \<open>randomize (lines 38-77)\<close>

text \<open>
  Lines 57-66: the output loop. It runs forever when \<open>K\<close> has size zero, so the result is
  an option, \<open>None\<close> for a loop that does not return. The bytes copied to \<^verbatim>\<open>out\<close> are
  collected in \<open>out\<close>.
\<close>

partial_function (option) randomize_loop ::
  "hmac_rng \<Rightarrow> u32bit \<Rightarrow> byte list \<Rightarrow> (byte list \<times> hmac_rng) option" where
  "randomize_loop g len out =
     (if len = 0 then Some (out, g)
      else
        let g1 = call_hmac_prf g ''rng'';
            copied = min (region_size (K g1)) len
        in randomize_loop g1 (len - copied) (out @ take (unat copied) (K g1)))"

declare randomize_loop.simps [code]

text \<open>Lines 69-76: the occasional fast poll of one source; \<^verbatim>\<open>at\<close> checks the index.\<close>

definition periodic_poll :: "hmac_rng \<Rightarrow> error + hmac_rng" where
  "periodic_poll g =
     (if length (entropy_sources g) \<noteq> 0 \<and> counter g mod 65536 = 0 then
        if source_index g < length (entropy_sources g) then
          (case fast_poll (entropy_sources g ! source_index g) (length (io_buffer g)) of
             (bs, src) \<Rightarrow>
               Inr (g\<lparr>entropy_sources := (entropy_sources g)[source_index g := src],
                      io_buffer := write_buf bs (io_buffer g),
                      source_index := (source_index g + 1) mod length (entropy_sources g),
                      extractor := mac_update (extractor g)
                                     (take (length bs) (write_buf bs (io_buffer g))),
                      history := history g @ [Fast_Poll (source_index g)]\<rparr>))
        else Inl Out_Of_Range
      else Inr g)"

text \<open>
  Lines 46-52: the check at entry, with the reseed and the exception. The state is returned
  in both cases: the exception leaves the generator as the reseed left it.
\<close>

definition randomize_entry :: "hmac_rng \<Rightarrow> error option \<times> hmac_rng" where
  "randomize_entry g =
     (if \<not> is_seeded g \<or> counter g \<ge> 0x100000 then
        let g1 = reseed g
        in if \<not> is_seeded g1
           then (Some (PRNG_Unseeded (name g1 @ '' seeding attempt failed'')), g1)
           else (None, g1)
      else (None, g))"

text \<open>
  Lines 57-76: the output loop followed by the occasional poll. The result is \<open>None\<close>
  when the loop does not return; otherwise the bytes written to \<^verbatim>\<open>out\<close>, or the exception
  of \<^verbatim>\<open>at\<close>, and the state the generator is left in.
\<close>

definition generate :: "hmac_rng \<Rightarrow> u32bit \<Rightarrow> ((error + byte list) \<times> hmac_rng) option" where
  "generate g len =
     (case randomize_loop g len [] of
        None \<Rightarrow> None
      | Some (out, g2) \<Rightarrow>
          (case periodic_poll g2 of
             Inl e \<Rightarrow> Some (Inl e, g2)
           | Inr g3 \<Rightarrow> Some (Inr out, g3)))"

text \<open>The whole of \<^verbatim>\<open>randomize\<close>: the check at entry, then the loop and the poll.\<close>

definition randomize :: "hmac_rng \<Rightarrow> u32bit \<Rightarrow> ((error + byte list) \<times> hmac_rng) option" where
  "randomize g len =
     (case randomize_entry g of
        (Some e, g1) \<Rightarrow> Some (Inl e, g1)
      | (None, g1) \<Rightarrow> generate g1 len)"

subsection \<open>Auxiliary notions for stating the properties\<close>

text \<open>\<open>k\<close> invocations of the stepping function with the label of the output loop.\<close>

definition rng_steps :: "nat \<Rightarrow> hmac_rng \<Rightarrow> hmac_rng" where
  "rng_steps k g = ((\<lambda>g. call_hmac_prf g ''rng'') ^^ k) g"

text \<open>
  A client that calls \<^verbatim>\<open>add_entropy\<close> and \<^verbatim>\<open>randomize\<close>, and what it gets back from the
  calls of \<^verbatim>\<open>randomize\<close>: the bytes or the exception of each call (\<open>None\<close> when a call
  does not return).
\<close>

datatype request = Add_Entropy "byte list" u32bit | Randomize u32bit

fun outputs :: "hmac_rng \<Rightarrow> request list \<Rightarrow> (error + byte list) list option" where
  "outputs g [] = Some []"
| "outputs g (Add_Entropy input len # rs) = outputs (add_entropy g input len) rs"
| "outputs g (Randomize len # rs) =
     (case randomize g len of
        None \<Rightarrow> None
      | Some (r, g1) \<Rightarrow> map_option ((#) r) (outputs g1 rs))"

text \<open>
  Two generators without entropy sources that agree on both MAC objects, on \<open>K\<close>, on the
  counter and on the estimate. The scratch buffer, the round-robin index and the history
  may differ.
\<close>

definition same_core :: "hmac_rng \<Rightarrow> hmac_rng \<Rightarrow> bool" where
  "same_core g1 g2 \<longleftrightarrow>
     extractor g1 = extractor g2 \<and> prf_mac g1 = prf_mac g2 \<and> K g1 = K g2 \<and>
     entropy g1 = entropy g2 \<and> counter g1 = counter g2 \<and>
     entropy_sources g1 = [] \<and> entropy_sources g2 = []"

text \<open>
  The states a generator can be in after any sequence of public operations, starting from
  the constructor on two MAC objects. A call of \<^verbatim>\<open>randomize\<close> that raises leaves a state too.
\<close>

inductive reachable :: "MessageAuthenticationCode \<Rightarrow> MessageAuthenticationCode \<Rightarrow> hmac_rng \<Rightarrow> bool"
  for e p where
  r_construct: "reachable e p (HMAC_RNG e p)"
| r_randomize: "reachable e p g \<Longrightarrow> randomize g len = Some (r, g1) \<Longrightarrow> reachable e p g1"
| r_reseed: "reachable e p g \<Longrightarrow> reachable e p (reseed g)"
| r_add_entropy: "reachable e p g \<Longrightarrow> reachable e p (add_entropy g input len)"
| r_add_entropy_source: "reachable e p g \<Longrightarrow> reachable e p (add_entropy_source g src)"
| r_clear: "reachable e p g \<Longrightarrow> reachable e p (clear g)"

subsection \<open>A concrete MAC for running the model\<close>

text \<open>
  A stand-in for a real MAC with \<open>n\<close> bytes of output, used to evaluate the model on
  concrete inputs: every byte of the tag is the sum of the bytes of key and message.
\<close>

definition demo_mac :: "u32bit \<Rightarrow> MessageAuthenticationCode" where
  "demo_mac n = \<lparr>OUTPUT_LENGTH = n, mac_name = ''demo'',
                   mac_fn = (\<lambda>k d. replicate (unat n) (sum_list k + sum_list d)),
                   mac_key = [], mac_data = []\<rparr>"

text \<open>
  A generator with three entropy sources, reached by the public operations: the
  constructor, three calls of \<^verbatim>\<open>add_entropy_source\<close> and one of \<^verbatim>\<open>add_entropy\<close> with 256
  bytes.
\<close>

definition demo_generator :: hmac_rng where
  "demo_generator =
     add_entropy
       (add_entropy_source
         (add_entropy_source
           (add_entropy_source (HMAC_RNG (demo_mac 32) (demo_mac 32))
             (EntropySource [[1, 2], [3, 4, 5]] [[9]]))
           (EntropySource [[6]] []))
         (EntropySource [] []))
       (replicate 256 7) 256"

section \<open>Basic facts\<close>

subsection \<open>The stepping function and the poll sweep\<close>

lemma call_hmac_prf_eq:
  "call_hmac_prf g label =
     g\<lparr>prf_mac := (prf_mac g)\<lparr>mac_data := []\<rparr>,
       K := mac_fn (prf_mac g) (mac_key (prf_mac g))
              (mac_data (prf_mac g) @ K g @ bytes_of label @
                 [get_byte 0 (counter g), get_byte 1 (counter g),
                  get_byte 2 (counter g), get_byte 3 (counter g)]),
       counter := counter g + 1,
       history := history g @ [Step label]\<rparr>"
  by (simp add: call_hmac_prf_def hmac_prf_def mac_final_def mac_update_def Let_def)

lemma get_byte_example: "get_byte 0 0x04030201 = 1 \<and> get_byte 1 0x04030201 = 2 \<and> get_byte 2 0x04030201 = 3 \<and> get_byte 3 0x04030201 = 4"
  by (simp add: get_byte_def)

lemma take_write_buf: "take (length bs) (write_buf bs buf) = bs"
  by (simp add: write_buf_def)

lemma length_write_buf: "length bs \<le> length buf \<Longrightarrow> length (write_buf bs buf) = length buf"
  by (simp add: write_buf_def)

lemma poll_credit_fold:
  assumes le: "\<And>s n. length (fst (poll s n)) \<le> n"
    and m: "m \<le> length (entropy_sources g)"
  shows "fold (poll_credit poll ev) [0..<m] g =
     (g\<lparr>entropy_sources :=
         map (\<lambda>s. snd (poll s (length (io_buffer g)))) (take m (entropy_sources g))
           @ drop m (entropy_sources g),
       io_buffer := foldl (\<lambda>buf bs. write_buf bs buf) (io_buffer g)
           (map (\<lambda>s. fst (poll s (length (io_buffer g)))) (take m (entropy_sources g))),
       entropy := entropy g + of_nat (length (concat
           (map (\<lambda>s. fst (poll s (length (io_buffer g)))) (take m (entropy_sources g))))),
       extractor := mac_update (extractor g) (concat
           (map (\<lambda>s. fst (poll s (length (io_buffer g)))) (take m (entropy_sources g)))),
       history := history g @ map ev [0..<m]\<rparr>)" (is "_ = ?rhs m")
  using m
proof (induction m)
  case 0
  then show ?case by (simp add: mac_update_def)
next
  case (Suc m)
  then have m: "m < length (entropy_sources g)" by simp
  have len: "length (foldl (\<lambda>buf bs. write_buf bs buf) (io_buffer g)
           (map (\<lambda>s. fst (poll s (length (io_buffer g)))) xs)) = length (io_buffer g)" for xs
  proof (induction xs rule: rev_induct)
    case Nil then show ?case by simp
  next
    case (snoc x xs)
    then show ?case using le[of x "length (io_buffer g)"] by (simp add: write_buf_def)
  qed
  obtain bs src where p: "poll (entropy_sources g ! m) (length (io_buffer g)) = (bs, src)"
    by (cases "poll (entropy_sources g ! m) (length (io_buffer g))")
  have tk: "take (Suc m) (entropy_sources g) = take m (entropy_sources g) @ [entropy_sources g ! m]"
    using m by (simp add: take_Suc_conv_app_nth)
  have dr: "drop m (entropy_sources g) = entropy_sources g ! m # drop (Suc m) (entropy_sources g)"
    using m by (simp add: Cons_nth_drop_Suc)
  have "fold (poll_credit poll ev) [0..<Suc m] g
          = poll_credit poll ev m (fold (poll_credit poll ev) [0..<m] g)"
    by simp
  also have "\<dots> = poll_credit poll ev m (g\<lparr>entropy_sources :=
         map (\<lambda>s. snd (poll s (length (io_buffer g)))) (take m (entropy_sources g))
           @ drop m (entropy_sources g),
       io_buffer := foldl (\<lambda>buf bs. write_buf bs buf) (io_buffer g)
           (map (\<lambda>s. fst (poll s (length (io_buffer g)))) (take m (entropy_sources g))),
       entropy := entropy g + of_nat (length (concat
           (map (\<lambda>s. fst (poll s (length (io_buffer g)))) (take m (entropy_sources g))))),
       extractor := mac_update (extractor g) (concat
           (map (\<lambda>s. fst (poll s (length (io_buffer g)))) (take m (entropy_sources g)))),
       history := history g @ map ev [0..<m]\<rparr>)"
    using Suc.IH m by simp
  also have "\<dots> = ?rhs (Suc m)"
    using m by (simp add: poll_credit_def len p tk dr nth_append list_update_append
        mac_update_def take_write_buf add.assoc)
  finally show ?case .
qed


lemma fast_poll_le: "length (fst (fast_poll s n)) \<le> n"
  by (cases "(s, n)" rule: fast_poll.cases) simp_all

lemma slow_poll_le: "length (fst (slow_poll s n)) \<le> n"
  by (cases "(s, n)" rule: slow_poll.cases) simp_all

lemma length_foldl_write_buf:
  "(\<And>bs. bs \<in> set bss \<Longrightarrow> length bs \<le> length buf)
     \<Longrightarrow> length (foldl (\<lambda>buf bs. write_buf bs buf) buf bss) = length buf"
  by (induction bss rule: rev_induct) (simp_all add: length_write_buf)

lemma poll_sources_eq:
  "poll_sources g =
     (g\<lparr>entropy_sources :=
         map (\<lambda>s. snd (slow_poll s (length (io_buffer g))))
           (map (\<lambda>s. snd (fast_poll s (length (io_buffer g)))) (entropy_sources g)),
       io_buffer := foldl (\<lambda>buf bs. write_buf bs buf) (io_buffer g)
           (map (\<lambda>s. fst (fast_poll s (length (io_buffer g)))) (entropy_sources g) @
            map (\<lambda>s. fst (slow_poll s (length (io_buffer g))))
              (map (\<lambda>s. snd (fast_poll s (length (io_buffer g)))) (entropy_sources g))),
       entropy := entropy g
           + of_nat (length (concat
               (map (\<lambda>s. fst (fast_poll s (length (io_buffer g)))) (entropy_sources g))))
           + of_nat (length (concat
               (map (\<lambda>s. fst (slow_poll s (length (io_buffer g))))
                 (map (\<lambda>s. snd (fast_poll s (length (io_buffer g)))) (entropy_sources g))))),
       extractor := mac_update (extractor g)
           (concat (map (\<lambda>s. fst (fast_poll s (length (io_buffer g)))) (entropy_sources g)) @
            concat (map (\<lambda>s. fst (slow_poll s (length (io_buffer g))))
              (map (\<lambda>s. snd (fast_poll s (length (io_buffer g)))) (entropy_sources g)))),
       history := history g @ map Fast_Poll [0..<length (entropy_sources g)]
                    @ map Slow_Poll [0..<length (entropy_sources g)]\<rparr>)" (is "_ = ?thesis_rhs")
proof (cases "entropy_sources g = []")
  case True
  then show ?thesis by (simp add: poll_sources_def mac_update_def)
next
  case False
  let ?g1 = "fold fast_poll_credit [0..<length (entropy_sources g)] g"
  have g1: "?g1 = g\<lparr>entropy_sources :=
         map (\<lambda>s. snd (fast_poll s (length (io_buffer g)))) (entropy_sources g),
       io_buffer := foldl (\<lambda>buf bs. write_buf bs buf) (io_buffer g)
           (map (\<lambda>s. fst (fast_poll s (length (io_buffer g)))) (entropy_sources g)),
       entropy := entropy g + of_nat (length (concat
           (map (\<lambda>s. fst (fast_poll s (length (io_buffer g)))) (entropy_sources g)))),
       extractor := mac_update (extractor g) (concat
           (map (\<lambda>s. fst (fast_poll s (length (io_buffer g)))) (entropy_sources g))),
       history := history g @ map Fast_Poll [0..<length (entropy_sources g)]\<rparr>"
    unfolding fast_poll_credit_def
    using poll_credit_fold [of fast_poll "length (entropy_sources g)" g Fast_Poll]
    by (simp add: fast_poll_le)
  have len1: "length (io_buffer ?g1) = length (io_buffer g)"
    by (simp add: g1, rule length_foldl_write_buf) (auto simp: fast_poll_le)
  have n1: "length (entropy_sources ?g1) = length (entropy_sources g)"
    by (simp add: g1)
  have "poll_sources g = fold slow_poll_credit [0..<length (entropy_sources ?g1)] ?g1"
    using False by (simp add: poll_sources_def n1)
  also have "\<dots> = ?g1\<lparr>entropy_sources :=
         map (\<lambda>s. snd (slow_poll s (length (io_buffer ?g1)))) (entropy_sources ?g1),
       io_buffer := foldl (\<lambda>buf bs. write_buf bs buf) (io_buffer ?g1)
           (map (\<lambda>s. fst (slow_poll s (length (io_buffer ?g1)))) (entropy_sources ?g1)),
       entropy := entropy ?g1 + of_nat (length (concat
           (map (\<lambda>s. fst (slow_poll s (length (io_buffer ?g1)))) (entropy_sources ?g1)))),
       extractor := mac_update (extractor ?g1) (concat
           (map (\<lambda>s. fst (slow_poll s (length (io_buffer ?g1)))) (entropy_sources ?g1))),
       history := history ?g1 @ map Slow_Poll [0..<length (entropy_sources ?g1)]\<rparr>"
    unfolding slow_poll_credit_def
    using poll_credit_fold [of slow_poll "length (entropy_sources ?g1)" ?g1 Slow_Poll]
    by (simp add: slow_poll_le)
  also have "\<dots> = ?thesis_rhs"
    unfolding len1 n1 by (simp add: g1 mac_update_def)
  finally show ?thesis .
qed


subsection \<open>The output loop\<close>

lemma rng_steps_0 [simp]: "rng_steps 0 g = g"
  by (simp add: rng_steps_def)

lemma rng_steps_Suc: "rng_steps (Suc k) g = rng_steps k (call_hmac_prf g ''rng'')"
  by (simp only: rng_steps_def funpow_Suc_right o_apply)

lemma rng_steps_frame:
  "entropy (rng_steps k g) = entropy g"
  "extractor (rng_steps k g) = extractor g"
  "entropy_sources (rng_steps k g) = entropy_sources g"
  "source_index (rng_steps k g) = source_index g"
  "io_buffer (rng_steps k g) = io_buffer g"
  "counter (rng_steps k g) = counter g + of_nat k"
  "history (rng_steps k g) = history g @ replicate k (Step ''rng'')"
  "OUTPUT_LENGTH (prf_mac (rng_steps k g)) = OUTPUT_LENGTH (prf_mac g)"
  "mac_fn (prf_mac (rng_steps k g)) = mac_fn (prf_mac g)"
  "mac_key (prf_mac (rng_steps k g)) = mac_key (prf_mac g)"
  "mac_name (prf_mac (rng_steps k g)) = mac_name (prf_mac g)"
  by (induction k arbitrary: g; simp add: rng_steps_Suc call_hmac_prf_eq replicate_app_Cons_same)+

lemma randomize_loop_frame:
  "randomize_loop g len out = Some r \<Longrightarrow> \<exists>k. snd r = rng_steps k g"
proof (induction rule: randomize_loop.raw_induct [rotated 1, consumes 1, case_names step])
  case (step f g len out r)
  show ?case
  proof (cases "len = 0")
    case True
    with step(2) have "snd r = rng_steps 0 g" by auto
    then show ?thesis by blast
  next
    case False
    with step(2) obtain len' out' where "f (call_hmac_prf g ''rng'') len' out' = Some r"
      by (auto simp: Let_def)
    with step(1) obtain k where "snd r = rng_steps k (call_hmac_prf g ''rng'')" by blast
    then have "snd r = rng_steps (Suc k) g" by (simp add: rng_steps_Suc)
    then show ?thesis by blast
  qed
qed


lemma mac_ok_pos: "mac_ok m \<Longrightarrow> 0 < unat (OUTPUT_LENGTH m)"
  by (simp add: mac_ok_def unat_gt_0 word_neq_0_conv)

lemma mac_ok_call_hmac_prf: "mac_ok (prf_mac g) \<Longrightarrow> mac_ok (prf_mac (call_hmac_prf g label))"
  by (simp add: mac_ok_def call_hmac_prf_eq)

lemma length_K_call_hmac_prf:
  "mac_ok (prf_mac g) \<Longrightarrow> length (K (call_hmac_prf g label)) = unat (OUTPUT_LENGTH (prf_mac g))"
  by (simp add: mac_ok_def call_hmac_prf_eq)

lemma ceil_div_step:
  fixes l n :: nat
  assumes "0 < n" "0 < l"
  shows "(l + n - 1) div n = Suc ((l - min n l + n - 1) div n)"
proof (cases "n \<le> l")
  case True
  then have "l + n - 1 = (l - n + n - 1) + n" using assms by simp
  then have "(l + n - 1) div n = (l - n + n - 1) div n + 1"
    using assms by (metis div_add_self2 less_numeral_extra(3))
  with True show ?thesis by (simp add: min_def)
next
  case False
  then have "(l + n - 1) div n = 1" using assms
    by (intro Euclidean_Rings.div_nat_eqI) simp_all
  with False show ?thesis by (simp add: min_def)
qed

lemma randomize_loop_total:
  assumes "mac_ok (prf_mac g)"
  shows "\<exists>bs. randomize_loop g len out =
           Some (out @ bs,
                 rng_steps ((unat len + unat (OUTPUT_LENGTH (prf_mac g)) - 1)
                               div unat (OUTPUT_LENGTH (prf_mac g))) g)
         \<and> length bs = unat len"
  using assms
proof (induction "unat len" arbitrary: len g out rule: less_induct)
  case less
  let ?n = "OUTPUT_LENGTH (prf_mac g)"
  show ?case
  proof (cases "len = 0")
    case True
    have "0 < unat ?n" using less.prems by (rule mac_ok_pos)
    then have "(unat ?n - 1) div unat ?n = 0" by simp
    with True show ?thesis by (subst randomize_loop.simps) simp
  next
    case False
    let ?g1 = "call_hmac_prf g ''rng''"
    let ?c = "min ?n len"
    have n0: "0 < unat ?n" using less.prems by (rule mac_ok_pos)
    have l0: "0 < unat len" using False by (simp add: unat_gt_0)
    have lenK: "length (K ?g1) = unat ?n" using less.prems by (rule length_K_call_hmac_prf)
    have sz: "region_size (K ?g1) = ?n" by (simp add: region_size_def lenK)
    have uc: "unat ?c = min (unat ?n) (unat len)"
      by (simp add: min_def word_le_nat_alt)
    have sub: "unat (len - ?c) = unat len - unat ?c"
      by (rule unat_sub) simp
    have lt: "unat (len - ?c) < unat len" using n0 l0 by (simp add: sub uc)
    have ok1: "mac_ok (prf_mac ?g1)" using less.prems by (rule mac_ok_call_hmac_prf)
    have n1: "OUTPUT_LENGTH (prf_mac ?g1) = ?n" by (simp add: call_hmac_prf_eq)
    from less.hyps [OF lt ok1, of "out @ take (unat ?c) (K ?g1)"]
    obtain bs where bs: "randomize_loop ?g1 (len - ?c) (out @ take (unat ?c) (K ?g1)) =
         Some ((out @ take (unat ?c) (K ?g1)) @ bs,
               rng_steps ((unat (len - ?c) + unat ?n - 1) div unat ?n) ?g1)"
       and lbs: "length bs = unat (len - ?c)"
      unfolding n1 by blast
    have k: "(unat len + unat ?n - 1) div unat ?n
               = Suc ((unat (len - ?c) + unat ?n - 1) div unat ?n)"
      unfolding sub uc using n0 l0 by (rule ceil_div_step)
    have st: "rng_steps ((unat (len - ?c) + unat ?n - 1) div unat ?n) ?g1
                = rng_steps ((unat len + unat ?n - 1) div unat ?n) g"
      by (simp only: k rng_steps_Suc)
    have "randomize_loop g len out
            = randomize_loop ?g1 (len - ?c) (out @ take (unat ?c) (K ?g1))"
      using False by (subst randomize_loop.simps) (simp add: Let_def sz)
    also have "\<dots> = Some (out @ (take (unat ?c) (K ?g1) @ bs),
                  rng_steps ((unat len + unat ?n - 1) div unat ?n) g)"
      by (simp only: bs st append_assoc)
    finally have "randomize_loop g len out =
            Some (out @ (take (unat ?c) (K ?g1) @ bs),
                  rng_steps ((unat len + unat ?n - 1) div unat ?n) g)" .
    moreover have "length (take (unat ?c) (K ?g1) @ bs) = unat len"
      using lbs by (simp add: lenK sub uc)
    ultimately show ?thesis by blast
  qed
qed

subsection \<open>Reseeding, the final poll and the check at entry\<close>

lemma reseed_with_input_fields:
  "counter (reseed_with_input g input n) = 0"
  "source_index (reseed_with_input g input n) = source_index g"
  "length (entropy_sources (reseed_with_input g input n)) = length (entropy_sources g)"
  "OUTPUT_LENGTH (prf_mac (reseed_with_input g input n)) = OUTPUT_LENGTH (prf_mac g)"
  "mac_fn (prf_mac (reseed_with_input g input n)) = mac_fn (prf_mac g)"
  "mac_name (prf_mac (reseed_with_input g input n)) = mac_name (prf_mac g)"
  "OUTPUT_LENGTH (extractor (reseed_with_input g input n)) = OUTPUT_LENGTH (extractor g)"
  "mac_fn (extractor (reseed_with_input g input n)) = mac_fn (extractor g)"
  "mac_name (extractor (reseed_with_input g input n)) = mac_name (extractor g)"
  "entropy (reseed_with_input g input n) \<le> 8 * OUTPUT_LENGTH (extractor g)"
  "history (reseed_with_input g input n) =
     history g @ Reseed # map Fast_Poll [0..<length (entropy_sources g)]
       @ map Slow_Poll [0..<length (entropy_sources g)]
       @ [Step ''rng'', Step ''reseed'', Step ''xts'']"
  unfolding reseed_with_input_def poll_sources_eq
  by (simp_all add: add_user_input_def feed_forward_def derive_prk_def derive_xts_def reset_state_def
          call_hmac_prf_eq mac_final_def mac_update_def mac_set_key_def region_clear_def)

lemma reseed_with_input_no_sources:
  assumes "entropy_sources g = []"
  shows "entropy_sources (reseed_with_input g input n) = []"
    and "entropy (reseed_with_input g input n)
           = min (entropy g + n) (8 * OUTPUT_LENGTH (extractor g))"
  using assms unfolding reseed_with_input_def poll_sources_eq
  by (simp_all add: add_user_input_def feed_forward_def derive_prk_def derive_xts_def reset_state_def
          call_hmac_prf_eq mac_final_def mac_update_def mac_set_key_def region_clear_def)

lemma mac_ok_reseed_with_input:
  "mac_ok (prf_mac g) \<Longrightarrow> mac_ok (prf_mac (reseed_with_input g input n))"
  by (simp add: mac_ok_def reseed_with_input_fields)

lemma mac_ok_rng_steps: "mac_ok (prf_mac g) \<Longrightarrow> mac_ok (prf_mac (rng_steps k g))"
  by (simp add: mac_ok_def rng_steps_frame)


lemma periodic_poll_Inl:
  "periodic_poll g = Inl e \<Longrightarrow> e = Out_Of_Range \<and> entropy_sources g \<noteq> []"
  by (auto simp: periodic_poll_def split: if_splits prod.splits)

lemma periodic_poll_no_sources: "entropy_sources g = [] \<Longrightarrow> periodic_poll g = Inr g"
  by (simp add: periodic_poll_def)

lemma periodic_poll_Inr:
  assumes "periodic_poll g = Inr g3"
  shows "history g3 = history g \<or> history g3 = history g @ [Fast_Poll (source_index g)]"
    and "counter g3 = counter g" and "entropy g3 = entropy g"
    and "prf_mac g3 = prf_mac g" and "K g3 = K g"
    and "OUTPUT_LENGTH (extractor g3) = OUTPUT_LENGTH (extractor g)"
    and "length (entropy_sources g3) = length (entropy_sources g)"
  using assms
  by (auto simp: periodic_poll_def mac_update_def split: if_splits prod.splits)

lemma generate_total:
  assumes "mac_ok (prf_mac g)"
  shows "\<exists>r g1 polls. generate g len = Some (r, g1)
           \<and> history g1 = history g
                 @ replicate ((unat len + unat (OUTPUT_LENGTH (prf_mac g)) - 1)
                               div unat (OUTPUT_LENGTH (prf_mac g))) (Step ''rng'')
                 @ polls
           \<and> (polls = [] \<or> polls = [Fast_Poll (source_index g)])
           \<and> counter g1 = counter g
                 + of_nat ((unat len + unat (OUTPUT_LENGTH (prf_mac g)) - 1)
                               div unat (OUTPUT_LENGTH (prf_mac g)))
           \<and> entropy g1 = entropy g
           \<and> (r = Inl Out_Of_Range \<and> entropy_sources g \<noteq> []
                 \<or> (\<exists>out. r = Inr out \<and> length out = unat len))"
proof -
  let ?k = "(unat len + unat (OUTPUT_LENGTH (prf_mac g)) - 1) div unat (OUTPUT_LENGTH (prf_mac g))"
  let ?g2 = "rng_steps ?k g"
  from randomize_loop_total [OF assms, of len "[]"]
  obtain bs where loop: "randomize_loop g len [] = Some (bs, ?g2)" and bs: "length bs = unat len"
    by auto
  show ?thesis
  proof (cases "periodic_poll ?g2")
    case (Inl e)
    then have "e = Out_Of_Range" "entropy_sources g \<noteq> []"
      using periodic_poll_Inl [OF Inl] by (simp_all add: rng_steps_frame)
    then have "generate g len = Some (Inl Out_Of_Range, ?g2)"
      using loop Inl by (simp add: generate_def)
    then show ?thesis using \<open>entropy_sources g \<noteq> []\<close>
      by (intro exI [of _ "Inl Out_Of_Range"] exI [of _ ?g2] exI [of _ "[]"])
         (simp add: rng_steps_frame)
  next
    case (Inr g3)
    then have gen: "generate g len = Some (Inr bs, g3)"
      using loop by (simp add: generate_def)
    from periodic_poll_Inr [OF Inr]
    have h: "history g3 = history ?g2 \<or> history g3 = history ?g2 @ [Fast_Poll (source_index g)]"
      and c: "counter g3 = counter ?g2" and e: "entropy g3 = entropy ?g2"
      by (simp_all add: rng_steps_frame)
    from h show ?thesis
    proof
      assume "history g3 = history ?g2"
      then show ?thesis using gen c e bs
        by (intro exI [of _ "Inr bs"] exI [of _ g3] exI [of _ "[]"]) (simp add: rng_steps_frame)
    next
      assume "history g3 = history ?g2 @ [Fast_Poll (source_index g)]"
      then show ?thesis using gen c e bs
        by (intro exI [of _ "Inr bs"] exI [of _ g3] exI [of _ "[Fast_Poll (source_index g)]"])
           (simp add: rng_steps_frame)
    qed
  qed
qed

lemma generate_no_sources:
  assumes "mac_ok (prf_mac g)" "entropy_sources g = []"
  shows "\<exists>out g1. generate g len = Some (Inr out, g1) \<and> length out = unat len"
  using generate_total [OF assms(1), of len] assms(2) by auto

lemma randomize_entry_pass:
  "is_seeded g \<Longrightarrow> counter g < 0x100000 \<Longrightarrow> randomize_entry g = (None, g)"
  by (simp add: randomize_entry_def not_le [symmetric])

lemma randomize_entry_reseed:
  "\<not> is_seeded g \<or> 0x100000 \<le> counter g \<Longrightarrow>
   randomize_entry g =
     (if is_seeded (reseed g) then None
      else Some (PRNG_Unseeded (name (reseed g) @ '' seeding attempt failed'')), reseed g)"
  by (auto simp: randomize_entry_def Let_def)

lemma HMAC_RNG_fields:
  "entropy (HMAC_RNG e p) = 0" "counter (HMAC_RNG e p) = 0"
  "entropy_sources (HMAC_RNG e p) = []" "source_index (HMAC_RNG e p) = 0"
  "OUTPUT_LENGTH (prf_mac (HMAC_RNG e p)) = OUTPUT_LENGTH p"
  "mac_fn (prf_mac (HMAC_RNG e p)) = mac_fn p"
  "mac_name (prf_mac (HMAC_RNG e p)) = mac_name p"
  "OUTPUT_LENGTH (extractor (HMAC_RNG e p)) = OUTPUT_LENGTH e"
  "mac_fn (extractor (HMAC_RNG e p)) = mac_fn e"
  "mac_name (extractor (HMAC_RNG e p)) = mac_name e"
  "history (HMAC_RNG e p) = []"
  by (simp_all add: HMAC_RNG_def mac_set_key_def)

lemma mac_ok_HMAC_RNG: "mac_ok p \<Longrightarrow> mac_ok (prf_mac (HMAC_RNG e p))"
  by (simp add: mac_ok_def HMAC_RNG_fields)

lemma mac_ok_demo_mac: "n \<noteq> 0 \<Longrightarrow> mac_ok (demo_mac n)"
  by (simp add: mac_ok_def demo_mac_def word_neq_0_conv)

lemma demo_mac_fields:
  "OUTPUT_LENGTH (demo_mac n) = n" "mac_name (demo_mac n) = ''demo''"
  by (simp_all add: demo_mac_def)

lemma randomize_cases:
  "randomize g len =
     (if \<not> is_seeded g \<or> 0x100000 \<le> counter g then
        if is_seeded (reseed g) then generate (reseed g) len
        else Some (Inl (PRNG_Unseeded (name (reseed g) @ '' seeding attempt failed'')), reseed g)
      else generate g len)"
  by (simp add: randomize_def randomize_entry_def Let_def)



lemma mac_ok_reseed: "mac_ok (prf_mac g) \<Longrightarrow> mac_ok (prf_mac (reseed g))"
  by (simp add: reseed_def mac_ok_reseed_with_input)

lemma history_reseed:
  "\<exists>rest. history (reseed g) = history g @ Reseed # rest"
  by (simp add: reseed_def reseed_with_input_fields)

subsection \<open>Two generators side by side\<close>

lemma same_core_sym: "same_core g1 g2 \<Longrightarrow> same_core g2 g1"
  by (simp add: same_core_def)

lemma same_core_call_hmac_prf:
  "same_core g1 g2 \<Longrightarrow> same_core (call_hmac_prf g1 label) (call_hmac_prf g2 label)"
  by (simp add: same_core_def call_hmac_prf_eq)

lemma same_core_reseed_with_input:
  "same_core g1 g2 \<Longrightarrow> same_core (reseed_with_input g1 input n) (reseed_with_input g2 input n)"
  unfolding reseed_with_input_def poll_sources_eq same_core_def
  by (simp add: add_user_input_def feed_forward_def derive_prk_def derive_xts_def reset_state_def
          call_hmac_prf_eq mac_final_def mac_update_def mac_set_key_def region_clear_def)

lemma same_core_is_seeded: "same_core g1 g2 \<Longrightarrow> is_seeded g1 = is_seeded g2"
  by (simp add: same_core_def is_seeded_def)

lemma same_core_name: "same_core g1 g2 \<Longrightarrow> name g1 = name g2"
  by (simp add: same_core_def name_def)

lemma same_core_randomize_loop:
  assumes "randomize_loop g1 len out = Some r"
  shows "same_core g1 g2 \<Longrightarrow>
           \<exists>g2'. randomize_loop g2 len out = Some (fst r, g2') \<and> same_core (snd r) g2'"
  using assms
proof (induction arbitrary: g2 rule: randomize_loop.raw_induct [rotated 1, consumes 1, case_names step])
  case (step f g len out r)
  show ?case
  proof (cases "len = 0")
    case True
    with step(2) have "r = (out, g)" by simp
    with True step(3) show ?thesis by (subst randomize_loop.simps) simp
  next
    case False
    let ?g1 = "call_hmac_prf g ''rng''"
    let ?g2 = "call_hmac_prf g2 ''rng''"
    let ?c = "min (region_size (K ?g1)) len"
    have sc: "same_core ?g1 ?g2" using step(3) by (rule same_core_call_hmac_prf)
    then have k: "K ?g2 = K ?g1" by (simp add: same_core_def)
    from step(2) False have "f ?g1 (len - ?c) (out @ take (unat ?c) (K ?g1)) = Some r"
      by (simp add: Let_def)
    from step(1) [OF this sc] obtain g2' where
      "randomize_loop ?g2 (len - ?c) (out @ take (unat ?c) (K ?g1)) = Some (fst r, g2')"
      and "same_core (snd r) g2'" by blast
    then show ?thesis using False
      by (subst randomize_loop.simps) (simp add: Let_def k)
  qed
qed

lemma same_core_generate:
  assumes "same_core g1 g2"
  shows "generate g1 len = None \<and> generate g2 len = None \<or>
         (\<exists>r h1 h2. generate g1 len = Some (r, h1) \<and> generate g2 len = Some (r, h2)
                      \<and> same_core h1 h2)"
proof (cases "randomize_loop g1 len []")
  case None
  have "randomize_loop g2 len [] = None"
  proof (rule ccontr)
    assume "randomize_loop g2 len [] \<noteq> None"
    then obtain r where "randomize_loop g2 len [] = Some r" by auto
    from same_core_randomize_loop [OF this same_core_sym [OF assms]] None
    show False by auto
  qed
  with None show ?thesis by (simp add: generate_def)
next
  case (Some r)
  from same_core_randomize_loop [OF Some assms] obtain h2 where
    l2: "randomize_loop g2 len [] = Some (fst r, h2)" and sc: "same_core (snd r) h2" by blast
  have p1: "periodic_poll (snd r) = Inr (snd r)" and p2: "periodic_poll h2 = Inr h2"
    using sc by (simp_all add: periodic_poll_no_sources same_core_def)
  have "generate g1 len = Some (Inr (fst r), snd r)"
    using Some p1 by (cases r) (simp add: generate_def)
  moreover have "generate g2 len = Some (Inr (fst r), h2)"
    using l2 p2 by (simp add: generate_def)
  ultimately show ?thesis using sc by blast
qed

lemma same_core_reseed: "same_core g1 g2 \<Longrightarrow> same_core (reseed g1) (reseed g2)"
  by (simp add: reseed_def same_core_reseed_with_input)

lemma same_core_randomize:
  assumes "same_core g1 g2"
  shows "randomize g1 len = None \<and> randomize g2 len = None \<or>
         (\<exists>r h1 h2. randomize g1 len = Some (r, h1) \<and> randomize g2 len = Some (r, h2)
                      \<and> same_core h1 h2)"
proof -
  note sr = same_core_reseed [OF assms]
  have c: "counter g1 = counter g2" using assms by (simp add: same_core_def)
  show ?thesis
    using same_core_generate [OF assms, of len] same_core_generate [OF sr, of len]
      same_core_is_seeded [OF assms] same_core_is_seeded [OF sr] same_core_name [OF sr] sr
    unfolding randomize_cases c by (simp split: if_splits)
qed

subsection \<open>The invariant of the reachable states\<close>

lemma generate_frame:
  assumes "generate g len = Some (r, g1)"
  shows "entropy g1 = entropy g"
    and "OUTPUT_LENGTH (extractor g1) = OUTPUT_LENGTH (extractor g)"
    and "OUTPUT_LENGTH (prf_mac g1) = OUTPUT_LENGTH (prf_mac g)"
proof -
  from assms obtain out g2 where loop: "randomize_loop g len [] = Some (out, g2)"
    by (auto simp: generate_def split: option.splits)
  from randomize_loop_frame [OF loop] obtain k where g2: "g2 = rng_steps k g" by auto
  have "entropy g1 = entropy g \<and> OUTPUT_LENGTH (extractor g1) = OUTPUT_LENGTH (extractor g)
          \<and> OUTPUT_LENGTH (prf_mac g1) = OUTPUT_LENGTH (prf_mac g)"
  proof (cases "periodic_poll g2")
    case (Inl e)
    with assms loop have "g1 = g2" by (simp add: generate_def)
    then show ?thesis by (simp add: g2 rng_steps_frame)
  next
    case (Inr g3)
    with assms loop have "g1 = g3" by (simp add: generate_def)
    with periodic_poll_Inr [OF Inr] show ?thesis by (simp add: g2 rng_steps_frame)
  qed
  then show "entropy g1 = entropy g"
    and "OUTPUT_LENGTH (extractor g1) = OUTPUT_LENGTH (extractor g)"
    and "OUTPUT_LENGTH (prf_mac g1) = OUTPUT_LENGTH (prf_mac g)" by simp_all
qed

lemma reseed_with_input_invariant:
  assumes "OUTPUT_LENGTH (extractor g) = OUTPUT_LENGTH e"
    and "OUTPUT_LENGTH (prf_mac g) = OUTPUT_LENGTH p"
  shows "entropy (reseed_with_input g input n) \<le> 8 * OUTPUT_LENGTH e \<and>
         OUTPUT_LENGTH (extractor (reseed_with_input g input n)) = OUTPUT_LENGTH e \<and>
         OUTPUT_LENGTH (prf_mac (reseed_with_input g input n)) = OUTPUT_LENGTH p"
  using reseed_with_input_fields(10) [of g input n]
  unfolding reseed_with_input_fields(4,7) assms by (intro conjI refl)

lemma reachable_invariant:
  assumes "reachable e p g"
  shows "entropy g \<le> 8 * OUTPUT_LENGTH e \<and>
         OUTPUT_LENGTH (extractor g) = OUTPUT_LENGTH e \<and>
         OUTPUT_LENGTH (prf_mac g) = OUTPUT_LENGTH p"
  using assms
proof (induction rule: reachable.induct)
  case r_construct
  show ?case by (simp add: HMAC_RNG_fields)
next
  case (r_randomize g len r g1)
  then have ol: "OUTPUT_LENGTH (extractor g) = OUTPUT_LENGTH e"
      "OUTPUT_LENGTH (prf_mac g) = OUTPUT_LENGTH p" by blast+
  note rs = reseed_with_input_invariant [OF ol, of "[]" 0, folded reseed_def]
  from r_randomize.hyps(2) consider "g1 = reseed g" | "generate g len = Some (r, g1)"
    | "generate (reseed g) len = Some (r, g1)"
    by (auto simp: randomize_cases split: if_splits)
  then show ?case
  proof cases
    case 1
    with rs show ?thesis by blast
  next
    case 2
    from generate_frame [OF 2] r_randomize.IH show ?thesis by metis
  next
    case 3
    from generate_frame [OF 3] rs show ?thesis by metis
  qed
next
  case (r_reseed g)
  then have ol: "OUTPUT_LENGTH (extractor g) = OUTPUT_LENGTH e"
      "OUTPUT_LENGTH (prf_mac g) = OUTPUT_LENGTH p" by blast+
  show ?case unfolding reseed_def by (rule reseed_with_input_invariant [OF ol])
next
  case (r_add_entropy g input len)
  then have ol: "OUTPUT_LENGTH (extractor g) = OUTPUT_LENGTH e"
      "OUTPUT_LENGTH (prf_mac g) = OUTPUT_LENGTH p" by blast+
  show ?case unfolding add_entropy_def by (rule reseed_with_input_invariant [OF ol])
next
  case (r_add_entropy_source g src)
  then show ?case by (simp add: add_entropy_source_def)
next
  case (r_clear g)
  then show ?case by (simp add: clear_def mac_clear_def)
qed

lemma times8_mono:
  fixes a b :: u32bit
  assumes "a < b" and "b < 2 ^ 29"
  shows "8 * a < 8 * b"
proof -
  have b: "unat b < 2 ^ 29" using assms(2) by (simp add: word_less_nat_alt)
  have a: "unat a < unat b" using assms(1) by (simp add: word_less_nat_alt)
  have "unat (8 * a) = 8 * unat a" using a b by (simp add: unat_word_ariths)
  moreover have "unat (8 * b) = 8 * unat b" using b by (simp add: unat_word_ariths)
  ultimately show ?thesis using a by (simp add: word_less_nat_alt)
qed

subsection \<open>The round-robin index and the poll at the end\<close>

lemma periodic_poll_total:
  assumes "source_index g < max 1 (length (entropy_sources g))"
  shows "periodic_poll g =
     Inr (if entropy_sources g \<noteq> [] \<and> counter g mod 65536 = 0 then
            g\<lparr>entropy_sources := (entropy_sources g)[source_index g :=
                    snd (fast_poll (entropy_sources g ! source_index g) (length (io_buffer g)))],
              io_buffer := write_buf
                    (fst (fast_poll (entropy_sources g ! source_index g) (length (io_buffer g))))
                    (io_buffer g),
              source_index := (source_index g + 1) mod length (entropy_sources g),
              extractor := mac_update (extractor g)
                    (fst (fast_poll (entropy_sources g ! source_index g) (length (io_buffer g)))),
              history := history g @ [Fast_Poll (source_index g)]\<rparr>
          else g)"
proof (cases "entropy_sources g = []")
  case True
  then show ?thesis by (simp add: periodic_poll_def)
next
  case False
  then have "source_index g < length (entropy_sources g)"
    using assms by (cases "entropy_sources g") auto
  with False show ?thesis
    by (auto simp: periodic_poll_def take_write_buf split: prod.splits)
qed

lemma periodic_poll_index:
  assumes "periodic_poll g = Inr g3" and "source_index g < max 1 (length (entropy_sources g))"
  shows "source_index g3 < max 1 (length (entropy_sources g3))"
proof -
  from assms have "g3 = (if entropy_sources g \<noteq> [] \<and> counter g mod 65536 = 0 then
            g\<lparr>entropy_sources := (entropy_sources g)[source_index g :=
                    snd (fast_poll (entropy_sources g ! source_index g) (length (io_buffer g)))],
              io_buffer := write_buf
                    (fst (fast_poll (entropy_sources g ! source_index g) (length (io_buffer g))))
                    (io_buffer g),
              source_index := (source_index g + 1) mod length (entropy_sources g),
              extractor := mac_update (extractor g)
                    (fst (fast_poll (entropy_sources g ! source_index g) (length (io_buffer g)))),
              history := history g @ [Fast_Poll (source_index g)]\<rparr>
          else g)"
    by (simp add: periodic_poll_total)
  note eq = this
  show ?thesis
  proof (cases "entropy_sources g \<noteq> [] \<and> counter g mod 65536 = 0")
    case True
    then have n: "0 < length (entropy_sources g)" by simp
    from eq True
    have "source_index g3 = (source_index g + 1) mod length (entropy_sources g)"
      and "length (entropy_sources g3) = length (entropy_sources g)" by simp_all
    with n have "source_index g3 < length (entropy_sources g3)" by simp
    then show ?thesis by (auto simp: max_def)
  next
    case False
    with eq have "g3 = g" by simp
    with assms(2) show ?thesis by simp
  qed
qed

lemma generate_index:
  assumes "generate g len = Some (r, g1)"
    and "source_index g < max 1 (length (entropy_sources g))"
  shows "source_index g1 < max 1 (length (entropy_sources g1))"
proof -
  from assms(1) obtain out g2 where loop: "randomize_loop g len [] = Some (out, g2)"
    by (auto simp: generate_def split: option.splits)
  from randomize_loop_frame [OF loop] obtain k where g2: "g2 = rng_steps k g" by auto
  have i2: "source_index g2 < max 1 (length (entropy_sources g2))"
    using assms(2) by (simp add: g2 rng_steps_frame)
  show ?thesis
  proof (cases "periodic_poll g2")
    case (Inl e)
    with assms(1) loop have "g1 = g2" by (simp add: generate_def)
    with i2 show ?thesis by simp
  next
    case (Inr g3)
    with assms(1) loop have "g1 = g3" by (simp add: generate_def)
    with periodic_poll_index [OF Inr i2] show ?thesis by simp
  qed
qed

lemma reachable_source_index:
  assumes "reachable e p g"
  shows "source_index g < max 1 (length (entropy_sources g))"
  using assms
proof (induction rule: reachable.induct)
  case r_construct
  show ?case by (simp add: HMAC_RNG_fields)
next
  case (r_randomize g len r g1)
  have rs: "source_index (reseed g) < max 1 (length (entropy_sources (reseed g)))"
    using r_randomize.IH by (simp add: reseed_def reseed_with_input_fields)
  from r_randomize.hyps(2) consider "g1 = reseed g" | "generate g len = Some (r, g1)"
    | "generate (reseed g) len = Some (r, g1)"
    by (auto simp: randomize_cases split: if_splits)
  then show ?case
  proof cases
    case 1
    with rs show ?thesis by simp
  next
    case 2
    from generate_index [OF 2 r_randomize.IH] show ?thesis .
  next
    case 3
    from generate_index [OF 3 rs] show ?thesis .
  qed
next
  case (r_reseed g)
  then show ?case by (simp add: reseed_def reseed_with_input_fields)
next
  case (r_add_entropy g input len)
  then show ?case by (simp add: add_entropy_def reseed_with_input_fields)
next
  case (r_add_entropy_source g src)
  then show ?case by (auto simp: add_entropy_source_def)
next
  case (r_clear g)
  then show ?case by (simp add: clear_def)
qed

lemma randomize_entry_frame:
  "source_index (snd (randomize_entry g)) = source_index g"
  "length (entropy_sources (snd (randomize_entry g))) = length (entropy_sources g)"
  "mac_ok (prf_mac g) \<Longrightarrow> mac_ok (prf_mac (snd (randomize_entry g)))"
  "OUTPUT_LENGTH (prf_mac (snd (randomize_entry g))) = OUTPUT_LENGTH (prf_mac g)"
  by (simp_all add: randomize_entry_def Let_def reseed_def reseed_with_input_fields
        mac_ok_reseed_with_input)

lemma reseed_with_input_sources:
  "entropy_sources (reseed_with_input g input n) =
     map (\<lambda>s. snd (slow_poll s (length (io_buffer g))))
       (map (\<lambda>s. snd (fast_poll s (length (io_buffer g)))) (entropy_sources g))"
  "mac_data (extractor (reseed_with_input g input n)) = []"
  "entropy (reseed_with_input g input n) =
     min (entropy g
           + of_nat (length (concat
               (map (\<lambda>s. fst (fast_poll s (length (io_buffer g)))) (entropy_sources g))))
           + of_nat (length (concat
               (map (\<lambda>s. fst (slow_poll s (length (io_buffer g))))
                 (map (\<lambda>s. snd (fast_poll s (length (io_buffer g)))) (entropy_sources g)))))
           + n)
         (8 * OUTPUT_LENGTH (extractor g))"
  unfolding reseed_with_input_def poll_sources_eq
  by (simp_all add: add_user_input_def feed_forward_def derive_prk_def derive_xts_def reset_state_def
          call_hmac_prf_eq mac_final_def mac_update_def mac_set_key_def region_clear_def)

lemma length_io_buffer_reseed_with_input:
  "length (io_buffer (reseed_with_input g input n)) = length (io_buffer g)"
proof -
  have "io_buffer (reseed_with_input g input n) =
      foldl (\<lambda>buf bs. write_buf bs buf) (io_buffer g)
        (map (\<lambda>s. fst (fast_poll s (length (io_buffer g)))) (entropy_sources g) @
         map (\<lambda>s. fst (slow_poll s (length (io_buffer g))))
           (map (\<lambda>s. snd (fast_poll s (length (io_buffer g)))) (entropy_sources g)))"
    unfolding reseed_with_input_def poll_sources_eq
    by (simp add: add_user_input_def feed_forward_def derive_prk_def derive_xts_def
          reset_state_def call_hmac_prf_eq mac_final_def mac_update_def mac_set_key_def
          region_clear_def)
  then show ?thesis
    by (simp only:, intro length_foldl_write_buf) (auto simp: fast_poll_le slow_poll_le)
qed

lemma add_entropy_source_fields:
  "prf_mac (add_entropy_source g s) = prf_mac g"
  "extractor (add_entropy_source g s) = extractor g"
  "entropy (add_entropy_source g s) = entropy g"
  "counter (add_entropy_source g s) = counter g"
  "source_index (add_entropy_source g s) = source_index g"
  "io_buffer (add_entropy_source g s) = io_buffer g"
  "entropy_sources (add_entropy_source g s) = entropy_sources g @ [s]"
  by (simp_all add: add_entropy_source_def)

lemma demo_generator_fields:
  "reachable (demo_mac 32) (demo_mac 32) demo_generator"
  "mac_ok (prf_mac demo_generator)"
  "entropy_sources demo_generator =
     [EntropySource [[3, 4, 5]] [], EntropySource [] [], EntropySource [] []]"
  "source_index demo_generator = 0"
  "counter demo_generator = 0"
  "entropy demo_generator = 256"
  "OUTPUT_LENGTH (prf_mac demo_generator) = 32"
  "mac_data (extractor demo_generator) = []"
  "length (io_buffer demo_generator) = 128"
proof -
  show "reachable (demo_mac 32) (demo_mac 32) demo_generator"
    unfolding demo_generator_def
    by (intro r_add_entropy r_add_entropy_source r_construct)
  show "mac_ok (prf_mac demo_generator)"
    unfolding demo_generator_def add_entropy_def
    by (intro mac_ok_reseed_with_input)
       (simp add: add_entropy_source_fields mac_ok_HMAC_RNG mac_ok_demo_mac)
  have io: "length (io_buffer (HMAC_RNG (demo_mac 32) (demo_mac 32))) = 128"
    by (simp add: HMAC_RNG_def region_create_def)
  show "entropy_sources demo_generator =
     [EntropySource [[3, 4, 5]] [], EntropySource [] [], EntropySource [] []]"
    by (simp add: demo_generator_def add_entropy_def reseed_with_input_sources
        add_entropy_source_fields HMAC_RNG_fields io)
  show "source_index demo_generator = 0"
    by (simp add: demo_generator_def add_entropy_def reseed_with_input_fields
        add_entropy_source_fields HMAC_RNG_fields)
  show "counter demo_generator = 0"
    by (simp add: demo_generator_def add_entropy_def reseed_with_input_fields)
  show "entropy demo_generator = 256"
    by (simp add: demo_generator_def add_entropy_def reseed_with_input_sources
        add_entropy_source_fields HMAC_RNG_fields io demo_mac_fields)
  show "OUTPUT_LENGTH (prf_mac demo_generator) = 32"
    by (simp add: demo_generator_def add_entropy_def reseed_with_input_fields
        add_entropy_source_fields HMAC_RNG_fields demo_mac_fields)
  show "mac_data (extractor demo_generator) = []"
    by (simp add: demo_generator_def add_entropy_def reseed_with_input_sources)
  show "length (io_buffer demo_generator) = 128"
    by (simp add: demo_generator_def add_entropy_def length_io_buffer_reseed_with_input
        add_entropy_source_fields io)
qed

section \<open>Properties\<close>

text \<open>
  C2: every invocation of the stepping function feeds the keyed PRF with the current \<open>K\<close>,
  then the bytes of the label, then the four bytes of the counter, least significant byte
  first; the tag becomes the new \<open>K\<close> and the counter grows by one. (Input that is
  pending in the PRF object comes first; there is none in the generator.)
\<close>

theorem hmac_prf_feeds_K_label_counter:
  "hmac_prf p k c label =
     (p\<lparr>mac_data := []\<rparr>,
      mac_fn p (mac_key p)
        (mac_data p @ k @ bytes_of label @
           [ucast c, ucast (drop_bit 8 c), ucast (drop_bit 16 c), ucast (drop_bit 24 c)]),
      c + 1)"
  by (simp add: hmac_prf_def mac_final_def mac_update_def get_byte_def Let_def)

text \<open>
  C4: \<^verbatim>\<open>reseed_with_input\<close> in one equation. The extractor absorbs, in this order, the
  fast polls and the slow polls of all sources, the caller's input, and the PRF outputs
  \<open>K1\<close> (label \<open>rng\<close>) and \<open>K2\<close> (label \<open>reseed\<close>); its tag \<open>prk\<close> is the new PRF key;
  the PRF output \<open>K3\<close> (label \<open>xts\<close>) under that new key is the new extractor key; \<open>K\<close>
  is zeroed, the counter is 0, and the estimate, with one unit per byte polled or supplied,
  is cut off at 8 times the extractor output length.
\<close>

theorem reseed_with_input_in_order:
  "reseed_with_input g input n =
     (let sz = length (io_buffer g);
          fast = map (\<lambda>s. fst (fast_poll s sz)) (entropy_sources g);
          srcs1 = map (\<lambda>s. snd (fast_poll s sz)) (entropy_sources g);
          slow = map (\<lambda>s. fst (slow_poll s sz)) srcs1;
          srcs2 = map (\<lambda>s. snd (slow_poll s sz)) srcs1;
          user = take (unat n) input;
          p = prf_mac g;
          e = extractor g;
          c = counter g;
          K1 = mac_fn p (mac_key p) (mac_data p @ K g @ bytes_of ''rng'' @
                 [get_byte 0 c, get_byte 1 c, get_byte 2 c, get_byte 3 c]);
          K2 = mac_fn p (mac_key p) (K1 @ bytes_of ''reseed'' @
                 [get_byte 0 (c + 1), get_byte 1 (c + 1), get_byte 2 (c + 1), get_byte 3 (c + 1)]);
          prk = mac_fn e (mac_key e)
                 (mac_data e @ concat fast @ concat slow @ user @ K1 @ K2);
          K3 = mac_fn p prk (K2 @ bytes_of ''xts'' @
                 [get_byte 0 (c + 2), get_byte 1 (c + 2), get_byte 2 (c + 2), get_byte 3 (c + 2)])
      in g\<lparr>extractor := e\<lparr>mac_key := K3, mac_data := []\<rparr>,
           prf_mac := p\<lparr>mac_key := prk, mac_data := []\<rparr>,
           entropy_sources := srcs2,
           io_buffer := foldl (\<lambda>buf bs. write_buf bs buf) (io_buffer g) (fast @ slow),
           K := replicate (length K3) 0,
           entropy := min (entropy g + of_nat (length (concat fast))
                             + of_nat (length (concat slow)) + n)
                          (8 * OUTPUT_LENGTH e),
           counter := 0,
           history := history g @ [Reseed]
                        @ map Fast_Poll [0..<length (entropy_sources g)]
                        @ map Slow_Poll [0..<length (entropy_sources g)]
                        @ [Step ''rng'', Step ''reseed'', Step ''xts'']\<rparr>)"
  unfolding reseed_with_input_def poll_sources_eq Let_def
  by (rule hmac_rng.equality)
     (auto intro!: MessageAuthenticationCode.equality
        simp: add_user_input_def feed_forward_def derive_prk_def derive_xts_def reset_state_def
          call_hmac_prf_eq mac_final_def mac_update_def mac_set_key_def region_clear_def
          add.commute [of 2])



text \<open>
  C7: \<^verbatim>\<open>add_entropy\<close> with a length of zero is the same state transition as \<^verbatim>\<open>reseed()\<close>,
  whatever the input pointer refers to.
\<close>

theorem add_entropy_empty_is_reseed: "add_entropy g input 0 = reseed g"
  by (simp add: add_entropy_def reseed_def reseed_with_input_def add_user_input_def)

text \<open>
  C1, as stated, fails: one unit is credited per byte, so 64 bytes give an estimate of 64,
  below the threshold of 8 * 32 = 256. The generator is not seeded and \<^verbatim>\<open>randomize\<close> raises.
\<close>

theorem add_entropy_64_bytes_not_seeded:
  "\<not> is_seeded (add_entropy (HMAC_RNG (demo_mac 32) (demo_mac 32)) (replicate 64 7) 64) \<and>
   map_option fst
     (randomize (add_entropy (HMAC_RNG (demo_mac 32) (demo_mac 32)) (replicate 64 7) 64) 32)
     = Some (Inl (PRNG_Unseeded ''HMAC_RNG(demo,demo) seeding attempt failed''))"
proof -
  let ?g = "add_entropy (HMAC_RNG (demo_mac 32) (demo_mac 32)) (replicate 64 7) 64"
  have e: "entropy ?g = 64"
    by (simp add: add_entropy_def reseed_with_input_no_sources HMAC_RNG_fields demo_mac_fields)
  have n: "\<not> is_seeded ?g"
    by (simp add: is_seeded_def e [unfolded add_entropy_def] add_entropy_def
        reseed_with_input_fields HMAC_RNG_fields demo_mac_fields)
  have s: "entropy_sources ?g = []"
    by (simp add: add_entropy_def reseed_with_input_no_sources HMAC_RNG_fields)
  have n2: "\<not> is_seeded (reseed ?g)"
    by (simp add: is_seeded_def reseed_def reseed_with_input_no_sources s e)
       (simp add: reseed_with_input_fields add_entropy_def HMAC_RNG_fields demo_mac_fields)
  have nm: "name (reseed ?g) = ''HMAC_RNG(demo,demo)''"
    by (simp add: name_def reseed_def add_entropy_def reseed_with_input_fields HMAC_RNG_fields
        demo_mac_fields)
  have "randomize ?g 32 =
          Some (Inl (PRNG_Unseeded ''HMAC_RNG(demo,demo) seeding attempt failed''), reseed ?g)"
    using n n2 by (simp add: randomize_def randomize_entry_reseed nm)
  with n show ?thesis by simp
qed

text \<open>
  C1, amended: with PRF and extractor of 32 bytes of output and no entropy source, one call
  of \<^verbatim>\<open>add_entropy\<close> with at least 256 bytes on the new generator makes it seeded, and
  \<^verbatim>\<open>randomize(out, 32)\<close> then returns 32 bytes and raises nothing.
\<close>

theorem add_entropy_256_bytes_seeded:
  assumes "OUTPUT_LENGTH e = 32" and "OUTPUT_LENGTH p = 32" and "mac_ok p" and "256 \<le> n"
  shows "is_seeded (add_entropy (HMAC_RNG e p) input n) \<and>
         (\<exists>out g1. randomize (add_entropy (HMAC_RNG e p) input n) 32 = Some (Inr out, g1)
                    \<and> length out = 32)"
proof -
  let ?g = "add_entropy (HMAC_RNG e p) input n"
  have e: "entropy ?g = 256"
    using assms(1,4)
    by (simp add: add_entropy_def reseed_with_input_no_sources HMAC_RNG_fields min_def)
  have sd: "is_seeded ?g"
    using assms(2)
    by (simp add: is_seeded_def e [unfolded add_entropy_def] add_entropy_def
        reseed_with_input_fields HMAC_RNG_fields)
  have c: "counter ?g = 0"
    by (simp add: add_entropy_def reseed_with_input_fields)
  have s: "entropy_sources ?g = []"
    by (simp add: add_entropy_def reseed_with_input_no_sources HMAC_RNG_fields)
  have ok: "mac_ok (prf_mac ?g)"
    unfolding add_entropy_def using assms(3)
    by (intro mac_ok_reseed_with_input mac_ok_HMAC_RNG)
  have "randomize ?g 32 = generate ?g 32"
    using sd c by (simp add: randomize_def randomize_entry_pass)
  with generate_no_sources [OF ok s, of 32] sd show ?thesis by simp
qed

theorem add_entropy_256_bytes_seeded_witness:
  "OUTPUT_LENGTH (demo_mac 32) = 32 \<and> mac_ok (demo_mac 32) \<and> (256 :: u32bit) \<le> 256 \<and>
   is_seeded (add_entropy (HMAC_RNG (demo_mac 32) (demo_mac 32)) (replicate 256 7) 256) \<and>
   (\<exists>out g1. randomize (add_entropy (HMAC_RNG (demo_mac 32) (demo_mac 32)) (replicate 256 7) 256) 32
                = Some (Inr out, g1) \<and> length out = 32)"
proof -
  have h1: "OUTPUT_LENGTH (demo_mac 32) = 32" by (simp add: demo_mac_fields)
  have h2: "mac_ok (demo_mac 32)" by (simp add: mac_ok_demo_mac)
  have h3: "(256 :: u32bit) \<le> 256" by simp
  from add_entropy_256_bytes_seeded [OF h1 h1 h2 h3, of "replicate 256 7"] h1 h2 h3
  show ?thesis by blast
qed




text \<open>
  C9: a seeded generator whose counter is below \<open>2^20\<close> at entry answers a call of
  \<^verbatim>\<open>randomize\<close> for \<open>len\<close> bytes with exactly \<open>\<lceil>len / OUTPUT_LENGTH\<rceil>\<close> invocations of
  the stepping function and nothing else but the possible poll at the end: no reseed,
  whatever value the counter passes on the way.
\<close>

theorem randomize_checks_threshold_once:
  assumes "is_seeded g" and "counter g < 0x100000" and "mac_ok (prf_mac g)"
  shows "\<exists>r g1 polls. randomize g len = Some (r, g1)
           \<and> history g1 = history g
                 @ replicate ((unat len + unat (OUTPUT_LENGTH (prf_mac g)) - 1)
                               div unat (OUTPUT_LENGTH (prf_mac g))) (Step ''rng'')
                 @ polls
           \<and> (polls = [] \<or> polls = [Fast_Poll (source_index g)])
           \<and> counter g1 = counter g
                 + of_nat ((unat len + unat (OUTPUT_LENGTH (prf_mac g)) - 1)
                               div unat (OUTPUT_LENGTH (prf_mac g)))"
proof -
  have "randomize g len = generate g len"
    using assms(1,2) by (simp add: randomize_def randomize_entry_pass)
  with generate_total [OF assms(3), of len] show ?thesis by auto
qed

theorem randomize_checks_threshold_once_witness:
  "is_seeded (HMAC_RNG (demo_mac 32) (demo_mac 32) \<lparr>entropy := 256, counter := 0xFFFFF\<rparr>) \<and>
   counter (HMAC_RNG (demo_mac 32) (demo_mac 32) \<lparr>entropy := 256, counter := 0xFFFFF\<rparr>) < 0x100000 \<and>
   mac_ok (prf_mac (HMAC_RNG (demo_mac 32) (demo_mac 32) \<lparr>entropy := 256, counter := 0xFFFFF\<rparr>)) \<and>
   (\<exists>r g1 polls.
      randomize (HMAC_RNG (demo_mac 32) (demo_mac 32) \<lparr>entropy := 256, counter := 0xFFFFF\<rparr>) 96
        = Some (r, g1)
      \<and> history g1 = replicate 3 (Step ''rng'') @ polls
      \<and> (polls = [] \<or> polls = [Fast_Poll 0])
      \<and> counter g1 = 0x100002)"
proof -
  let ?g = "HMAC_RNG (demo_mac 32) (demo_mac 32) \<lparr>entropy := 256, counter := 0xFFFFF\<rparr>"
  have h1: "is_seeded ?g" by (simp add: is_seeded_def HMAC_RNG_def mac_set_key_def demo_mac_def)
  have h2: "counter ?g < 0x100000" by simp
  have h3: "mac_ok (prf_mac ?g)" by (simp add: mac_ok_HMAC_RNG mac_ok_demo_mac)
  have n: "OUTPUT_LENGTH (prf_mac ?g) = 32" by (simp add: HMAC_RNG_fields demo_mac_fields)
  have hi: "history ?g = []" "source_index ?g = 0" by (simp_all add: HMAC_RNG_fields)
  from randomize_checks_threshold_once [OF h1 h2 h3, of 96] h1 h2 h3
  show ?thesis unfolding n hi by simp
qed

text \<open>
  C5: a call of \<^verbatim>\<open>randomize\<close> (with a PRF that keeps its contract, so that the call
  returns) goes through \<^verbatim>\<open>reseed_with_input\<close> if and only if the generator is not seeded or
  the counter is at least \<open>2^20\<close> at entry. After a reseed and exactly \<open>2^20\<close> invocations of
  the stepping function the counter is \<open>2^20\<close>, and the next call reseeds.
\<close>

theorem randomize_reseeds_iff:
  assumes "mac_ok (prf_mac g)"
  shows "(\<exists>r g1. randomize g len = Some (r, g1) \<and>
            (Reseed \<in> set (drop (length (history g)) (history g1))
               \<longleftrightarrow> \<not> is_seeded g \<or> 0x100000 \<le> counter g)) \<and>
         counter (rng_steps (2 ^ 20) (reseed_with_input g input n)) = 0x100000 \<and>
         (\<exists>r g1. randomize (rng_steps (2 ^ 20) (reseed_with_input g input n)) len = Some (r, g1) \<and>
            Reseed \<in> set (drop (length (history (rng_steps (2 ^ 20) (reseed_with_input g input n))))
                              (history g1)))"
proof -
  have main: "\<exists>r g1. randomize g0 len = Some (r, g1) \<and>
            (Reseed \<in> set (drop (length (history g0)) (history g1))
               \<longleftrightarrow> \<not> is_seeded g0 \<or> 0x100000 \<le> counter g0)"
    if ok: "mac_ok (prf_mac g0)" for g0
  proof (cases "\<not> is_seeded g0 \<or> 0x100000 \<le> counter g0")
    case False
    then have "randomize g0 len = generate g0 len" by (simp add: randomize_cases)
    moreover from generate_total [OF ok, of len]
    obtain r g1 polls k where "generate g0 len = Some (r, g1)"
      and "history g1 = history g0 @ replicate k (Step ''rng'') @ polls"
      and "polls = [] \<or> polls = [Fast_Poll (source_index g0)]"
      by blast
    ultimately show ?thesis using False by auto
  next
    case True
    obtain rest where hr: "history (reseed g0) = history g0 @ Reseed # rest"
      using history_reseed by blast
    show ?thesis
    proof (cases "is_seeded (reseed g0)")
      case seeded: True
      from generate_total [OF mac_ok_reseed [OF ok], of len]
      obtain r g1 polls k where "generate (reseed g0) len = Some (r, g1)"
        and "history g1 = history (reseed g0) @ replicate k (Step ''rng'') @ polls"
        by blast
      then show ?thesis using True seeded hr by (auto simp: randomize_cases)
    next
      case False
      then show ?thesis using True hr by (auto simp: randomize_cases)
    qed
  qed
  let ?g2 = "rng_steps (2 ^ 20) (reseed_with_input g input n)"
  have c: "counter ?g2 = 0x100000"
    by (simp add: rng_steps_frame reseed_with_input_fields)
  have ok2: "mac_ok (prf_mac ?g2)"
    using assms by (intro mac_ok_rng_steps mac_ok_reseed_with_input)
  from main [OF ok2] c have "\<exists>r g1. randomize ?g2 len = Some (r, g1) \<and>
            Reseed \<in> set (drop (length (history ?g2)) (history g1))"
    by auto
  with main [OF assms] c show ?thesis by blast
qed

theorem randomize_reseeds_iff_witness:
  "mac_ok (prf_mac (HMAC_RNG (demo_mac 32) (demo_mac 32))) \<and>
   (\<exists>r g1. randomize (HMAC_RNG (demo_mac 32) (demo_mac 32)) 32 = Some (r, g1) \<and>
      Reseed \<in> set (drop (length (history (HMAC_RNG (demo_mac 32) (demo_mac 32)))) (history g1)))"
proof -
  let ?g = "HMAC_RNG (demo_mac 32) (demo_mac 32)"
  have h: "mac_ok (prf_mac ?g)" by (simp add: mac_ok_HMAC_RNG mac_ok_demo_mac)
  have n: "\<not> is_seeded ?g" by (simp add: is_seeded_def HMAC_RNG_fields demo_mac_fields)
  from randomize_reseeds_iff [OF h, of 32] h n show ?thesis by blast
qed

text \<open>
  C6: in every state that the public operations can reach, with a registry that is not
  empty and a PRF that keeps its contract, a call of \<^verbatim>\<open>randomize\<close> that passes the check at
  entry returns its output (\<^verbatim>\<open>at(source_index)\<close> does not raise). If the counter is a
  multiple of 65536 at the end, then after the steps of the output loop exactly one fast
  poll was made, of the source at \<open>source_index\<close>; the index moved on by one modulo the
  number of sources and the bytes polled were appended to the input of the extractor.
  Otherwise no poll was made. In both cases the estimate is what it was after the check at
  entry.
\<close>

theorem randomize_periodic_poll:
  assumes "reachable e p g" and "mac_ok (prf_mac g)" and "entropy_sources g \<noteq> []"
    and "fst (randomize_entry g) = None"
  shows "(let g1 = snd (randomize_entry g);
              i = source_index g;
              k = (unat len + unat (OUTPUT_LENGTH (prf_mac g)) - 1)
                    div unat (OUTPUT_LENGTH (prf_mac g));
              polled = fast_poll (entropy_sources g1 ! i) (length (io_buffer g1))
          in \<exists>out g3.
               randomize g len = Some (Inr out, g3) \<and> length out = unat len \<and>
               counter g3 = counter g1 + of_nat k \<and>
               entropy g3 = entropy g1 \<and>
               (if counter g3 mod 65536 = 0 then
                  history g3 = history g1 @ replicate k (Step ''rng'') @ [Fast_Poll i] \<and>
                  source_index g3 = (i + 1) mod length (entropy_sources g) \<and>
                  entropy_sources g3 = (entropy_sources g1)[i := snd polled] \<and>
                  extractor g3 = mac_update (extractor g1) (fst polled)
                else
                  history g3 = history g1 @ replicate k (Step ''rng'') \<and>
                  source_index g3 = i \<and>
                  entropy_sources g3 = entropy_sources g1 \<and>
                  extractor g3 = extractor g1))"
proof -
  let ?g1 = "snd (randomize_entry g)"
  let ?k = "(unat len + unat (OUTPUT_LENGTH (prf_mac g)) - 1) div unat (OUTPUT_LENGTH (prf_mac g))"
  let ?g2 = "rng_steps ?k ?g1"
  have r: "randomize g len = generate ?g1 len"
    using assms(4) by (cases "randomize_entry g") (simp add: randomize_def)
  have ok1: "mac_ok (prf_mac ?g1)" using assms(2) by (rule randomize_entry_frame)
  from randomize_loop_total [OF ok1, of len "[]"]
  obtain bs where loop: "randomize_loop ?g1 len [] = Some (bs, ?g2)" and bs: "length bs = unat len"
    unfolding randomize_entry_frame(4) by auto
  have ix: "source_index ?g2 < max 1 (length (entropy_sources ?g2))"
    using reachable_source_index [OF assms(1)]
    by (simp add: rng_steps_frame randomize_entry_frame)
  have ne: "entropy_sources ?g1 \<noteq> []"
    using assms(3) randomize_entry_frame(2) [of g] by auto
  have ne2: "entropy_sources ?g2 \<noteq> []" using ne by (simp add: rng_steps_frame)
  note pp = periodic_poll_total [OF ix]
  show ?thesis
  proof (cases "counter ?g2 mod 65536 = 0")
    case True
    let ?g3 = "?g2\<lparr>entropy_sources := (entropy_sources ?g2)[source_index ?g2 :=
                    snd (fast_poll (entropy_sources ?g2 ! source_index ?g2) (length (io_buffer ?g2)))],
              io_buffer := write_buf
                    (fst (fast_poll (entropy_sources ?g2 ! source_index ?g2) (length (io_buffer ?g2))))
                    (io_buffer ?g2),
              source_index := (source_index ?g2 + 1) mod length (entropy_sources ?g2),
              extractor := mac_update (extractor ?g2)
                    (fst (fast_poll (entropy_sources ?g2 ! source_index ?g2) (length (io_buffer ?g2)))),
              history := history ?g2 @ [Fast_Poll (source_index ?g2)]\<rparr>"
    have "periodic_poll ?g2 = Inr ?g3"
      by (simp only: pp True ne2 simp_thms if_True)
    then have g: "randomize g len = Some (Inr bs, ?g3)"
      using loop by (simp add: r generate_def)
    have c3: "counter ?g3 mod 65536 = 0" using True by simp
    show ?thesis
      unfolding Let_def
      apply (rule exI [of _ bs], rule exI [of _ ?g3])
      apply (simp only: g bs c3 if_True simp_thms)
      apply (simp add: rng_steps_frame randomize_entry_frame)
      done
  next
    case False
    have "periodic_poll ?g2 = Inr ?g2"
      by (simp only: pp False simp_thms if_False)
    then have g: "randomize g len = Some (Inr bs, ?g2)"
      using loop by (simp add: r generate_def)
    show ?thesis
      unfolding Let_def
      apply (rule exI [of _ bs], rule exI [of _ ?g2])
      apply (simp only: g bs False if_False simp_thms)
      apply (simp add: rng_steps_frame randomize_entry_frame)
      done
  qed
qed


theorem randomize_periodic_poll_witness:
  "reachable (demo_mac 32) (demo_mac 32) demo_generator \<and>
   mac_ok (prf_mac demo_generator) \<and>
   entropy_sources demo_generator
     = [EntropySource [[3, 4, 5]] [], EntropySource [] [], EntropySource [] []] \<and>
   source_index demo_generator = 0 \<and>
   fst (randomize_entry demo_generator) = None \<and>
   (\<exists>out g3.
      randomize demo_generator 2097152 = Some (Inr out, g3) \<and>
      length out = 2097152 \<and>
      counter g3 = 65536 \<and>
      entropy g3 = 256 \<and>
      history g3 = history demo_generator @ replicate 65536 (Step ''rng'') @ [Fast_Poll 0] \<and>
      source_index g3 = 1 \<and>
      entropy_sources g3 = [EntropySource [] [], EntropySource [] [], EntropySource [] []] \<and>
      mac_data (extractor g3) = [3, 4, 5])"
proof -
  note f = demo_generator_fields
  have sd: "is_seeded demo_generator" by (simp add: is_seeded_def f)
  have en: "randomize_entry demo_generator = (None, demo_generator)"
    using sd by (rule randomize_entry_pass) (simp add: f)
  have h4: "fst (randomize_entry demo_generator) = None" by (simp add: en)
  have h3: "entropy_sources demo_generator \<noteq> []" by (simp add: f)
  have "\<exists>out g3.
      randomize demo_generator 2097152 = Some (Inr out, g3) \<and>
      length out = 2097152 \<and>
      counter g3 = 65536 \<and>
      entropy g3 = 256 \<and>
      history g3 = history demo_generator @ replicate 65536 (Step ''rng'') @ [Fast_Poll 0] \<and>
      source_index g3 = 1 \<and>
      entropy_sources g3 = [EntropySource [] [], EntropySource [] [], EntropySource [] []] \<and>
      mac_data (extractor g3) = [3, 4, 5]"
    using randomize_periodic_poll [OF f(1) f(2) h3 h4, of 2097152]
    unfolding Let_def en snd_conv f
    by (auto simp: mac_update_def f split: if_splits)
  with f(1,2,3,4) h4 show ?thesis by - (intro conjI; assumption)
qed

text \<open>
  C8: two generators without entropy sources that agree on the MAC objects, on \<open>K\<close>, on
  the counter and on the estimate, as two identically constructed ones do, answer the same
  sequence of \<^verbatim>\<open>add_entropy\<close> and \<^verbatim>\<open>randomize\<close> calls with the same outputs: the contents
  of the scratch buffer, the round-robin index and the history have no influence.
\<close>

theorem outputs_deterministic:
  assumes "same_core g1 g2"
  shows "outputs g1 rs = outputs g2 rs"
  using assms
proof (induction rs arbitrary: g1 g2)
  case Nil
  show ?case by simp
next
  case (Cons rq rs)
  show ?case
  proof (cases rq)
    case (Add_Entropy input len)
    have "same_core (add_entropy g1 input len) (add_entropy g2 input len)"
      using Cons.prems by (simp add: add_entropy_def same_core_reseed_with_input)
    from Cons.IH [OF this] Add_Entropy show ?thesis by simp
  next
    case (Randomize len)
    from same_core_randomize [OF Cons.prems, of len] show ?thesis
    proof (elim disjE conjE exE)
      assume "randomize g1 len = None" "randomize g2 len = None"
      with Randomize show ?thesis by simp
    next
      fix r h1 h2
      assume "randomize g1 len = Some (r, h1)" "randomize g2 len = Some (r, h2)" "same_core h1 h2"
      with Cons.IH [of h1 h2] Randomize show ?thesis by simp
    qed
  qed
qed

theorem outputs_deterministic_witness:
  "same_core (HMAC_RNG (demo_mac 32) (demo_mac 32))
     (HMAC_RNG (demo_mac 32) (demo_mac 32) \<lparr>io_buffer := replicate 128 9, source_index := 5\<rparr>) \<and>
   outputs (HMAC_RNG (demo_mac 32) (demo_mac 32))
     [Randomize 8, Add_Entropy (replicate 256 7) 256, Randomize 40, Randomize 16]
   = outputs (HMAC_RNG (demo_mac 32) (demo_mac 32) \<lparr>io_buffer := replicate 128 9, source_index := 5\<rparr>)
     [Randomize 8, Add_Entropy (replicate 256 7) 256, Randomize 40, Randomize 16]"
proof -
  have h: "same_core (HMAC_RNG (demo_mac 32) (demo_mac 32))
     (HMAC_RNG (demo_mac 32) (demo_mac 32) \<lparr>io_buffer := replicate 128 9, source_index := 5\<rparr>)"
    by (simp add: same_core_def HMAC_RNG_def)
  show ?thesis by (rule conjI [OF h outputs_deterministic [OF h]])
qed

text \<open>
  C10, as stated, fails in its second half: \<^verbatim>\<open>is_seeded\<close> computes \<^verbatim>\<open>8 * prf->OUTPUT_LENGTH\<close>
  in \<^verbatim>\<open>u32bit\<close>. For a PRF output length of \<open>2^29\<close> the product is 0, and the new generator
  is seeded although its extractor has the shorter output.
\<close>

theorem shorter_extractor_yet_seeded:
  "reachable (demo_mac 16) (demo_mac 0x20000000) (HMAC_RNG (demo_mac 16) (demo_mac 0x20000000)) \<and>
   OUTPUT_LENGTH (extractor (HMAC_RNG (demo_mac 16) (demo_mac 0x20000000)))
     < OUTPUT_LENGTH (prf_mac (HMAC_RNG (demo_mac 16) (demo_mac 0x20000000))) \<and>
   is_seeded (HMAC_RNG (demo_mac 16) (demo_mac 0x20000000))"
  by (simp add: r_construct is_seeded_def HMAC_RNG_fields demo_mac_fields)

text \<open>
  C10, amended: in every state that the public operations can reach from the constructor,
  the estimate is at most 8 times the output length of the extractor. Hence a generator
  whose extractor has a shorter output than its PRF is never seeded, provided that the PRF
  output length is below \<open>2^29\<close> bytes, so that the product \<^verbatim>\<open>8 * prf->OUTPUT_LENGTH\<close> of
  \<^verbatim>\<open>is_seeded\<close> does not wrap around in \<^verbatim>\<open>u32bit\<close>.
\<close>

theorem entropy_estimate_bounded:
  assumes "reachable e p g"
  shows "unat (entropy g) \<le> 8 * unat (OUTPUT_LENGTH e) \<and>
         (OUTPUT_LENGTH e < OUTPUT_LENGTH p \<and> OUTPUT_LENGTH p < 2 ^ 29 \<longrightarrow> \<not> is_seeded g)"
proof -
  from reachable_invariant [OF assms]
  have le: "entropy g \<le> 8 * OUTPUT_LENGTH e"
    and pl: "OUTPUT_LENGTH (prf_mac g) = OUTPUT_LENGTH p" by blast+
  have "unat (entropy g) \<le> unat (8 * OUTPUT_LENGTH e)"
    using le by (simp add: word_le_nat_alt)
  also have "\<dots> \<le> 8 * unat (OUTPUT_LENGTH e)"
    by (simp add: unat_word_ariths)
  finally have n: "unat (entropy g) \<le> 8 * unat (OUTPUT_LENGTH e)" .
  have "\<not> is_seeded g" if "OUTPUT_LENGTH e < OUTPUT_LENGTH p" "OUTPUT_LENGTH p < 2 ^ 29"
  proof -
    from times8_mono [OF that] le have "entropy g < 8 * OUTPUT_LENGTH p" by simp
    then show ?thesis by (simp add: is_seeded_def pl not_le)
  qed
  with n show ?thesis by blast
qed

theorem entropy_estimate_bounded_witness:
  "reachable (demo_mac 16) (demo_mac 32)
     (add_entropy (HMAC_RNG (demo_mac 16) (demo_mac 32)) (replicate 300 1) 300) \<and>
   unat (entropy (add_entropy (HMAC_RNG (demo_mac 16) (demo_mac 32)) (replicate 300 1) 300))
     \<le> 8 * unat (OUTPUT_LENGTH (demo_mac 16)) \<and>
   \<not> is_seeded (add_entropy (HMAC_RNG (demo_mac 16) (demo_mac 32)) (replicate 300 1) 300)"
proof -
  have h: "reachable (demo_mac 16) (demo_mac 32)
     (add_entropy (HMAC_RNG (demo_mac 16) (demo_mac 32)) (replicate 300 1) 300)"
    by (intro r_add_entropy r_construct)
  have l: "OUTPUT_LENGTH (demo_mac 16) < OUTPUT_LENGTH (demo_mac 32) \<and>
           OUTPUT_LENGTH (demo_mac 32) < 2 ^ 29"
    by (simp add: demo_mac_fields)
  from entropy_estimate_bounded [OF h] h l show ?thesis by blast
qed

end
